theory Spec2Isabelle
  imports Complex_Main
begin

section \<open>Python strings\<close>

text \<open>
  A Python \<^verbatim>\<open>str\<close> is a sequence of Unicode code points, so it is modelled as a list of
  natural numbers; \<open>len\<close>, slicing and \<open>in\<close> then count what Python counts.
  \<open>str\<close> turns an ASCII literal into such a list.
\<close>

type_synonym pystr = "nat list"

definition str :: "string \<Rightarrow> pystr" where
  "str s = map of_char s"

text \<open>The backslash cannot stand in a HOL string literal; it is code point 92.\<close>

definition bsl :: pystr where
  "bsl = [92]"

text \<open>
  \<^verbatim>\<open>str.isspace\<close> for one code point: the ASCII table of CPython
  (9 to 13, 28 to 32) and the Unicode white space beyond it.
\<close>

definition is_space :: "nat \<Rightarrow> bool" where
  "is_space c =
     ((9 \<le> c \<and> c \<le> 13) \<or> (28 \<le> c \<and> c \<le> 32) \<or> c = 133 \<or> c = 160 \<or> c = 5760 \<or>
      (8192 \<le> c \<and> c \<le> 8202) \<or> c = 8232 \<or> c = 8233 \<or> c = 8239 \<or> c = 8287 \<or>
      c = 12288)"

text \<open>\<^verbatim>\<open>s.strip()\<close>: white space removed at both ends.\<close>

definition strip :: "pystr \<Rightarrow> pystr" where
  "strip s = rev (dropWhile is_space (rev (dropWhile is_space s)))"

text \<open>\<^verbatim>\<open>sep.join(parts)\<close>.\<close>

fun join :: "pystr \<Rightarrow> pystr list \<Rightarrow> pystr" where
  "join sep [] = []"
| "join sep [p] = p"
| "join sep (p # q # ps) = p @ sep @ join sep (q # ps)"

text \<open>\<^verbatim>\<open>xs[start:]\<close> for a Python integer \<open>start\<close>: a negative start counts from the end
  and is clipped at the beginning of the list.\<close>

definition slice_from :: "int \<Rightarrow> 'a list \<Rightarrow> 'a list" where
  "slice_from start xs =
     (if start < 0 then drop (nat (int (length xs) + start)) xs else drop (nat start) xs)"

section \<open>Data model of \<^verbatim>\<open>tmux_monitor_v2.py\<close>\<close>

datatype ProcessingReason =
  PAUSE_DETECTED | CONTEXT_LIMIT | PROMPT_DETECTED | TIMEOUT | QUESTION_DETECTED

text \<open>Time stamps are seconds on the real line.\<close>

record LineEntry =
  content :: pystr
  timestamp :: real
  line_number :: int

record Summary =
  summary_content :: pystr
  start_line :: int
  end_line :: int
  summary_timestamp :: real
  line_count :: int

record InteractivePrompt =
  pattern :: pystr
  prompt_type :: pystr
  detected_at :: real
  full_line :: pystr

text \<open>
  \<^verbatim>\<open>vault_data\<close> is a dictionary read from YAML; each of its sections may be missing
  (\<^verbatim>\<open>.get("passwords", {})\<close>).
\<close>

record vault_data =
  passwords :: "(pystr \<rightharpoonup> pystr) option"
  auto_responses :: "(pystr \<rightharpoonup> pystr) option"

text \<open>The counters of \<^verbatim>\<open>self.stats\<close>; its key \<^verbatim>\<open>auto_responses\<close> is the field
  \<open>auto_responses_sent\<close>, the name being taken by the section of the vault.\<close>

record stats =
  lines_processed :: int
  summaries_created :: int
  prompts_detected :: int
  questions_answered :: int
  auto_responses_sent :: int

text \<open>Exceptions of the collaborators: \<^verbatim>\<open>re.error\<close>, and whatever the AI client raises.\<close>

datatype exn = ReError | ApiError pystr

text \<open>
  What the monitor does to the world and to its queue, in the order it does it.
  The list is not a field of the Python object: it records the calls the object makes.
\<close>

datatype action =
  Appended LineEntry
  | Cleared
  | SentKeys pystr
  | SummarizerCall pystr
  | NextStepCall pystr
  | LoggedInteraction pystr pystr pystr
  | LoggedError exn

record monitor =
  max_context_lines :: int
  pause_threshold :: real
  dead_threshold :: real
  summarization_provider :: pystr
  next_step_provider :: pystr
  line_queue :: "LineEntry list"
  summaries :: "Summary list"
  last_activity_time :: real
  prompt_patterns :: "pystr list"
  vault :: vault_data
  automation_enabled :: bool
  stats :: stats
  history :: "action list"

datatype 'a result = Returned 'a | Raised exn

datatype re_result = Match | NoMatch | BadPattern

text \<open>
  The collaborators the monitor calls and does not define: \<^verbatim>\<open>re.search\<close> (the flag is
  \<^verbatim>\<open>re.IGNORECASE\<close>), the two chat completions (one per system prompt) and SHA-256's
  hexadecimal digest.
\<close>

record env =
  re_search :: "pystr \<Rightarrow> bool \<Rightarrow> pystr \<Rightarrow> re_result"
  summarizer :: "pystr \<Rightarrow> exn + pystr"
  next_step_generator :: "pystr \<Rightarrow> exn + pystr"
  sha256_hexdigest :: "pystr \<Rightarrow> pystr"

section \<open>The bounded queue\<close>

text \<open>
  \<^verbatim>\<open>deque(maxlen=n).append(x)\<close>: the item goes in at the right, and when the deque is
  then longer than \<open>maxlen\<close> the leftmost item is dropped.
\<close>

definition deque_append :: "nat \<Rightarrow> 'a list \<Rightarrow> 'a \<Rightarrow> 'a list" where
  "deque_append maxlen q x = (let q' = q @ [x] in if maxlen < length q' then tl q' else q')"

definition queue_maxlen :: nat where
  "queue_maxlen = 10000"

section \<open>SecureVault\<close>

definition get_password :: "env \<Rightarrow> vault_data \<Rightarrow> pystr \<Rightarrow> pystr option" where
  "get_password e v context =
     (let context_hash = take 16 (sha256_hexdigest e context)
      in (case passwords v of None \<Rightarrow> None | Some m \<Rightarrow> m context_hash))"

definition store_password :: "env \<Rightarrow> vault_data \<Rightarrow> pystr \<Rightarrow> pystr \<Rightarrow> vault_data" where
  "store_password e v context password =
     (let context_hash = take 16 (sha256_hexdigest e context);
          m = (case passwords v of None \<Rightarrow> Map.empty | Some m \<Rightarrow> m)
      in v\<lparr>passwords := Some (m(context_hash \<mapsto> password))\<rparr>)"

definition get_auto_response :: "vault_data \<Rightarrow> pystr \<Rightarrow> pystr option" where
  "get_auto_response v pat =
     (case auto_responses v of None \<Rightarrow> None | Some m \<Rightarrow> m pat)"

text \<open>
  How \<open>main\<close> registers the pairs of \<^verbatim>\<open>--add-auto-response\<close>:
  \<^verbatim>\<open>vault_data.setdefault("auto_responses", {})[pattern] = response\<close>.
\<close>

definition add_auto_response :: "vault_data \<Rightarrow> pystr \<Rightarrow> pystr \<Rightarrow> vault_data" where
  "add_auto_response v pat response =
     (let m = (case auto_responses v of None \<Rightarrow> Map.empty | Some m \<Rightarrow> m)
      in v\<lparr>auto_responses := Some (m(pat \<mapsto> response))\<rparr>)"

section \<open>Prompt detection\<close>

definition question_patterns :: "pystr list" where
  "question_patterns =
     [str ''Are you sure.*'' @ bsl @ str ''?'',
      str ''Do you want to.*'' @ bsl @ str ''?'',
      str ''Continue'' @ bsl @ str ''?.*'' @ bsl @ str ''(y/n'' @ bsl @ str '')'',
      str ''Overwrite.*'' @ bsl @ str ''?'',
      str ''Delete.*'' @ bsl @ str ''?'',
      str ''Save changes.*'' @ bsl @ str ''?'',
      str ''Password:'',
      str ''Enter passphrase'',
      str ''Username:'',
      bsl @ str ''[sudo'' @ bsl @ str ''] password for'']"

text \<open>\<^verbatim>\<open>sub in s\<close> for strings.\<close>

fun contains :: "pystr \<Rightarrow> pystr \<Rightarrow> bool" where
  "contains sub [] = (sub = [])"
| "contains sub (c # cs) = (take (length sub) (c # cs) = sub \<or> contains sub cs)"

text \<open>
  \<^verbatim>\<open>s.lower()\<close> on the patterns \<open>classify_prompt\<close> is given: they are the ASCII question
  patterns above, where lowering a code point is adding 32 to a capital letter.
\<close>

definition lower :: "pystr \<Rightarrow> pystr" where
  "lower s = map (\<lambda>c. if 65 \<le> c \<and> c \<le> 90 then c + 32 else c) s"

definition classify_prompt :: "pystr \<Rightarrow> pystr" where
  "classify_prompt pat =
     (if contains (str ''password'') (lower pat) \<or> contains (str ''passphrase'') (lower pat)
      then str ''password''
      else if contains (str ''y/n'') (lower pat) \<or> contains (str ''yes/no'') (lower pat)
      then str ''confirmation''
      else if contains (str ''username'') (lower pat) then str ''username''
      else str ''general'')"

text \<open>The loop of \<open>detect_interactive_prompt\<close> over the patterns still to try.\<close>

fun detect_in :: "env \<Rightarrow> real \<Rightarrow> pystr \<Rightarrow> pystr list \<Rightarrow> InteractivePrompt option result" where
  "detect_in e now line [] = Returned None"
| "detect_in e now line (p # ps) =
     (case re_search e p True line of
        Match \<Rightarrow>
          Returned (Some \<lparr>pattern = p, prompt_type = classify_prompt p,
                          detected_at = now, full_line = line\<rparr>)
      | NoMatch \<Rightarrow> detect_in e now line ps
      | BadPattern \<Rightarrow> Raised ReError)"

definition detect_interactive_prompt ::
  "env \<Rightarrow> real \<Rightarrow> pystr \<Rightarrow> InteractivePrompt option result" where
  "detect_interactive_prompt e now line = detect_in e now line question_patterns"

text \<open>The inner loop of \<open>is_at_prompt\<close>: a pattern that does not compile is passed over.\<close>

fun matches_any :: "env \<Rightarrow> pystr \<Rightarrow> pystr list \<Rightarrow> bool" where
  "matches_any e line [] = False"
| "matches_any e line (p # ps) =
     (case re_search e p False line of
        Match \<Rightarrow> True
      | NoMatch \<Rightarrow> matches_any e line ps
      | BadPattern \<Rightarrow> matches_any e line ps)"

text \<open>The outer loop, over \<^verbatim>\<open>reversed(lines)\<close>.\<close>

fun at_prompt_from :: "env \<Rightarrow> pystr list \<Rightarrow> pystr list \<Rightarrow> bool" where
  "at_prompt_from e pats [] = False"
| "at_prompt_from e pats (line # older) =
     (if strip line \<noteq> [] then matches_any e line pats else at_prompt_from e pats older)"

definition is_at_prompt :: "env \<Rightarrow> monitor \<Rightarrow> pystr list \<Rightarrow> bool" where
  "is_at_prompt e s lines = at_prompt_from e (prompt_patterns s) (rev lines)"

section \<open>The queue processor\<close>

definition summarize_activity :: "env \<Rightarrow> pystr \<Rightarrow> monitor \<Rightarrow> pystr result \<times> monitor" where
  "summarize_activity e activity s =
     (if summarization_provider s = str ''openai''
      then (case summarizer e activity of
              Inl ex \<Rightarrow> Raised ex
            | Inr text \<Rightarrow> Returned text,
            s\<lparr>history := history s @ [SummarizerCall activity]\<rparr>)
      else (Returned (str ''Summary not implemented for this provider''), s))"

definition generate_next_step :: "env \<Rightarrow> pystr \<Rightarrow> monitor \<Rightarrow> pystr result \<times> monitor" where
  "generate_next_step e summary s =
     (if next_step_provider s = str ''openai''
      then (case next_step_generator e summary of
              Inl ex \<Rightarrow> Raised ex
            | Inr text \<Rightarrow> Returned text,
            s\<lparr>history := history s @ [NextStepCall summary]\<rparr>)
      else (Returned (str ''Next step generation not implemented for this provider''), s))"

definition log_interaction :: "pystr \<Rightarrow> pystr \<Rightarrow> pystr \<Rightarrow> monitor \<Rightarrow> monitor" where
  "log_interaction activity summary next_step s =
     s\<lparr>history := history s @ [LoggedInteraction activity summary next_step]\<rparr>"

definition build_rolling_context :: "monitor \<Rightarrow> LineEntry list \<Rightarrow> pystr" where
  "build_rolling_context s recent_lines =
     (let context_parts =
            (if 2 \<le> length (summaries s)
             then [str ''[Previous Summary]: '' @
                   summary_content (summaries s ! (length (summaries s) - 2))]
             else []) @
            (if summaries s \<noteq> []
             then [str ''[Last Summary]: '' @ summary_content (last (summaries s))]
             else []);
          recent_text = join [10] (map content (slice_from (- max_context_lines s) recent_lines))
      in join [10, 10] (context_parts @ [str ''[Recent Activity]:'' @ [10] @ recent_text]))"

definition full_context :: "LineEntry list \<Rightarrow> pystr" where
  "full_context lines_to_process = join [10] (map content lines_to_process)"

definition build_context :: "ProcessingReason \<Rightarrow> monitor \<Rightarrow> LineEntry list \<Rightarrow> pystr" where
  "build_context reason s lines_to_process =
     (if reason = CONTEXT_LIMIT \<and> summaries s \<noteq> []
      then build_rolling_context s lines_to_process
      else full_context lines_to_process)"

text \<open>
  \<open>process_queue\<close>, the body under the processing lock. The summary is recorded and
  the queue cleared before the next step is asked for, so an exception of the next-step
  call leaves both done.
\<close>

definition record_summary :: "real \<Rightarrow> pystr \<Rightarrow> LineEntry list \<Rightarrow> monitor \<Rightarrow> monitor" where
  "record_summary now summary_text lines_to_process s =
     s\<lparr>summaries := summaries s @
          [\<lparr>summary_content = summary_text,
            start_line = line_number (hd lines_to_process),
            end_line = line_number (last lines_to_process),
            summary_timestamp = now,
            line_count = int (length lines_to_process)\<rparr>],
       stats := (stats s)\<lparr>summaries_created := summaries_created (stats s) + 1\<rparr>,
       line_queue := [],
       history := history s @ [Cleared]\<rparr>"

definition process_queue ::
  "env \<Rightarrow> real \<Rightarrow> ProcessingReason \<Rightarrow> monitor \<Rightarrow> unit result \<times> monitor" where
  "process_queue e now reason s =
     (if line_queue s = [] then (Returned (), s)
      else
        let lines_to_process = line_queue s;
            context = build_context reason s lines_to_process
        in (case summarize_activity e context s of
              (Raised ex, s1) \<Rightarrow> (Raised ex, s1)
            | (Returned summary_text, s1) \<Rightarrow>
                if lines_to_process \<noteq> [] then
                  let s2 = record_summary now summary_text lines_to_process s1
                  in if reason = PROMPT_DETECTED \<or> reason = TIMEOUT
                     then (case generate_next_step e summary_text s2 of
                             (Raised ex, s3) \<Rightarrow> (Raised ex, s3)
                           | (Returned next_steps, s3) \<Rightarrow>
                               (Returned (), log_interaction context summary_text next_steps s3))
                     else (Returned (), s2)
                else (Returned (), s1)))"

section \<open>The capture loop\<close>

definition handle_interactive_prompt ::
  "env \<Rightarrow> real \<Rightarrow> pystr \<Rightarrow> monitor \<Rightarrow> unit result \<times> monitor" where
  "handle_interactive_prompt e now line s =
     (case detect_interactive_prompt e now line of
        Raised ex \<Rightarrow> (Raised ex, s)
      | Returned None \<Rightarrow> (Returned (), s)
      | Returned (Some prompt) \<Rightarrow>
          let s1 = s\<lparr>stats := (stats s)\<lparr>prompts_detected := prompts_detected (stats s) + 1\<rparr>\<rparr>
          in if automation_enabled s1 then
               (case get_auto_response (vault s1) (pattern prompt) of
                  Some response \<Rightarrow>
                    if response \<noteq> [] then
                      (Returned (),
                       s1\<lparr>history := history s1 @ [SentKeys response],
                          stats := (stats s1)\<lparr>auto_responses_sent :=
                                                 auto_responses_sent (stats s1) + 1\<rparr>\<rparr>)
                    else process_queue e now QUESTION_DETECTED s1
                | None \<Rightarrow> process_queue e now QUESTION_DETECTED s1)
             else (Returned (), s1))"

text \<open>
  The \<^verbatim>\<open>for i, line in enumerate(new_lines)\<close> loop; \<open>n\<close> is
  \<^verbatim>\<open>len(last_content) + i\<close>.
\<close>

fun capture_new_lines ::
  "env \<Rightarrow> real \<Rightarrow> int \<Rightarrow> pystr list \<Rightarrow> monitor \<Rightarrow> unit result \<times> monitor" where
  "capture_new_lines e now n [] s = (Returned (), s)"
| "capture_new_lines e now n (line # rest) s =
     (let entry = \<lparr>content = line, timestamp = now, line_number = n\<rparr>;
          s1 = s\<lparr>line_queue := deque_append queue_maxlen (line_queue s) entry,
                 last_activity_time := now,
                 history := history s @ [Appended entry]\<rparr>
      in (case detect_interactive_prompt e now line of
            Raised ex \<Rightarrow> (Raised ex, s1)
          | Returned None \<Rightarrow> capture_new_lines e now (n + 1) rest s1
          | Returned (Some prompt) \<Rightarrow>
              (case handle_interactive_prompt e now line s1 of
                 (Raised ex, s2) \<Rightarrow> (Raised ex, s2)
               | (Returned u, s2) \<Rightarrow> capture_new_lines e now (n + 1) rest s2)))"

text \<open>
  One iteration of \<open>capture_lines_continuously\<close> on the pane content it read. The state
  of the loop is the monitor and \<open>last_content\<close>; an exception in the body is logged and
  skips the assignment to \<open>last_content\<close>.
\<close>

definition capture_tick ::
  "env \<Rightarrow> real \<Rightarrow> pystr list \<Rightarrow> monitor \<times> pystr list \<Rightarrow> monitor \<times> pystr list" where
  "capture_tick e now current_content st =
     (let s = fst st; last_content = snd st
      in if length last_content < length current_content then
           (case capture_new_lines e now (int (length last_content))
                   (drop (length last_content) current_content) s of
              (Raised ex, s1) \<Rightarrow> (s1\<lparr>history := history s1 @ [LoggedError ex]\<rparr>, last_content)
            | (Returned u, s1) \<Rightarrow> (s1, current_content))
         else (s, current_content))"

section \<open>The idle monitor\<close>

text \<open>
  The reason \<open>monitor_activity\<close> calls \<open>process_queue\<close> with, if any, when the time
  since the last activity is \<open>time_since_activity\<close> seconds.
\<close>

definition monitor_decision :: "env \<Rightarrow> real \<Rightarrow> monitor \<Rightarrow> ProcessingReason option" where
  "monitor_decision e time_since_activity s =
     (if max_context_lines s \<le> int (length (line_queue s)) then Some CONTEXT_LIMIT
      else if pause_threshold s \<le> time_since_activity \<and> line_queue s \<noteq> [] then
        (if line_queue s \<noteq> [] \<and> is_at_prompt e s (map content (line_queue s))
         then Some PROMPT_DETECTED else Some PAUSE_DETECTED)
      else if dead_threshold s \<le> time_since_activity \<and> line_queue s \<noteq> [] then Some TIMEOUT
      else None)"

text \<open>The \<^verbatim>\<open>except Exception\<close> of both loops: the exception is logged and the loop goes on.\<close>

definition log_failure :: "unit result \<times> monitor \<Rightarrow> monitor" where
  "log_failure r =
     (case r of
        (Raised ex, s1) \<Rightarrow> s1\<lparr>history := history s1 @ [LoggedError ex]\<rparr>
      | (Returned u, s1) \<Rightarrow> s1)"

text \<open>One iteration of \<open>monitor_activity\<close> at time \<open>now\<close>.\<close>

definition monitor_tick :: "env \<Rightarrow> real \<Rightarrow> monitor \<Rightarrow> monitor" where
  "monitor_tick e now s =
     (case monitor_decision e (now - last_activity_time s) s of
        None \<Rightarrow> s
      | Some reason \<Rightarrow> log_failure (process_queue e now reason s))"

section \<open>Runs of the two loops\<close>

text \<open>
  The capture loop and the idle monitor are the only code that touches the queue. A run
  is a sequence of their iterations: a poll that reads a pane content, or a tick of the
  idle monitor.
\<close>

datatype event = Poll real "pystr list" | Tick real

fun step :: "env \<Rightarrow> event \<Rightarrow> monitor \<times> pystr list \<Rightarrow> monitor \<times> pystr list" where
  "step e (Poll now current_content) st = capture_tick e now current_content st"
| "step e (Tick now) st = (monitor_tick e now (fst st), snd st)"

fun run :: "env \<Rightarrow> event list \<Rightarrow> monitor \<times> pystr list \<Rightarrow> monitor \<times> pystr list" where
  "run e [] st = st"
| "run e (ev # evs) st = run e evs (step e ev st)"

text \<open>The entries a history appended to the queue, oldest first, and their line numbers.\<close>

fun appended :: "action list \<Rightarrow> LineEntry list" where
  "appended [] = []"
| "appended (Appended entry # h) = entry # appended h"
| "appended (a # h) = appended h"

definition appended_numbers :: "monitor \<Rightarrow> int list" where
  "appended_numbers s = map line_number (appended (history s))"

text \<open>No poll of the run reads a pane content shorter than the one read before it;
  \<open>n\<close> is the length of the content read last.\<close>

fun never_shrinks :: "nat \<Rightarrow> event list \<Rightarrow> bool" where
  "never_shrinks n [] = True"
| "never_shrinks n (Poll now current_content # evs) =
     (n \<le> length current_content \<and> never_shrinks (length current_content) evs)"
| "never_shrinks n (Tick now # evs) = never_shrinks n evs"

text \<open>
  A poll is not cut short: the pane content has not grown, or the loop over the new
  lines ends without an exception. \<open>no_poll_cut_short\<close> says so of every poll of a run
  that starts in the given state.
\<close>

definition poll_completes ::
  "env \<Rightarrow> real \<Rightarrow> pystr list \<Rightarrow> monitor \<times> pystr list \<Rightarrow> bool" where
  "poll_completes e now current_content st =
     (if length (snd st) < length current_content
      then fst (capture_new_lines e now (int (length (snd st)))
                  (drop (length (snd st)) current_content) (fst st)) = Returned ()
      else True)"

fun no_poll_cut_short :: "env \<Rightarrow> event list \<Rightarrow> monitor \<times> pystr list \<Rightarrow> bool" where
  "no_poll_cut_short e [] st = True"
| "no_poll_cut_short e (Poll now current_content # evs) st =
     (poll_completes e now current_content st \<and>
      no_poll_cut_short e evs (step e (Poll now current_content) st))"
| "no_poll_cut_short e (Tick now # evs) st = no_poll_cut_short e evs (step e (Tick now) st)"

text \<open>
  The invariant of a run: the line numbers appended so far rise strictly, and all lie
  below the length of the pane content read last.
\<close>

definition numbered_below :: "monitor \<times> pystr list \<Rightarrow> bool" where
  "numbered_below st =
     (sorted_wrt (<) (appended_numbers (fst st)) \<and>
      list_all (\<lambda>k. k < int (length (snd st))) (appended_numbers (fst st)))"

section \<open>Learning prompt patterns (\<^verbatim>\<open>tmux_monitor.py\<close>)\<close>

text \<open>
  \<^verbatim>\<open>re.escape\<close> of Python 3.7 and later: a backslash before each of the characters
  \<^verbatim>\<open>()[]{}?*+-|^$\.&~#\<close>, the space and the ASCII controls tab, newline, carriage return,
  vertical tab and form feed.
\<close>

definition re_special :: "nat list" where
  "re_special =
     [40, 41, 91, 93, 123, 125, 63, 42, 43, 45, 124, 94, 36, 92, 46, 38, 126, 35, 32,
      9, 10, 13, 11, 12]"

definition re_escape :: "pystr \<Rightarrow> pystr" where
  "re_escape s = concat (map (\<lambda>c. if c \<in> set re_special then [92, c] else [c]) s)"

text \<open>The characters \<^verbatim>\<open>$ > # : ]\<close> and the code points U+00BB, U+276F and U+279C.\<close>

definition prompt_indicators :: "nat list" where
  "prompt_indicators = [36, 62, 35, 58, 93, 187, 10095, 10140]"

text \<open>The first loop: the last ten lines that are not blank, the most recent first.\<close>

fun recent_from :: "pystr list \<Rightarrow> pystr list \<Rightarrow> pystr list" where
  "recent_from recent_lines [] = recent_lines"
| "recent_from recent_lines (line # older) =
     (if strip line \<noteq> [] then
        (let recent_lines' = recent_lines @ [line]
         in if 10 \<le> length recent_lines' then recent_lines' else recent_from recent_lines' older)
      else recent_from recent_lines older)"

text \<open>
  \<^verbatim>\<open>line_endings[ending] = line_endings.get(ending, 0) + 1\<close> on a dictionary that keeps
  its keys in the order they were inserted.
\<close>

fun bump :: "pystr \<Rightarrow> (pystr \<times> int) list \<Rightarrow> (pystr \<times> int) list" where
  "bump k [] = [(k, 1)]"
| "bump k ((k', c) # kvs) = (if k = k' then (k', c + 1) # kvs else (k', c) # bump k kvs)"

definition ending_of :: "pystr \<Rightarrow> pystr" where
  "ending_of line = strip (slice_from (- 20) line)"

definition is_candidate :: "pystr \<Rightarrow> bool" where
  "is_candidate ending =
     (0 < length ending \<and> length ending < 15 \<and>
      list_ex (\<lambda>ch. ch \<in> set ending) prompt_indicators)"

fun count_endings :: "(pystr \<times> int) list \<Rightarrow> pystr list \<Rightarrow> (pystr \<times> int) list" where
  "count_endings line_endings [] = line_endings"
| "count_endings line_endings (line # rest) =
     (if is_candidate (ending_of line)
      then count_endings (bump (ending_of line) line_endings) rest
      else count_endings line_endings rest)"

definition pattern_of :: "pystr \<Rightarrow> pystr" where
  "pattern_of ending = re_escape ending @ bsl @ str ''s*$''"

text \<open>
  The last loop, over the endings sorted by falling count; \<open>re_compiles\<close> says whether
  \<^verbatim>\<open>re.compile\<close> accepts a pattern.
\<close>

fun first_new ::
  "(pystr \<Rightarrow> bool) \<Rightarrow> pystr list \<Rightarrow> pystr set \<Rightarrow> (pystr \<times> int) list \<Rightarrow> pystr option" where
  "first_new re_compiles known learned [] = None"
| "first_new re_compiles known learned ((ending, count) # rest) =
     (if 3 \<le> count then
        (if pattern_of ending \<notin> set known \<and> pattern_of ending \<notin> learned then
           (if re_compiles (pattern_of ending) then Some (pattern_of ending)
            else first_new re_compiles known learned rest)
         else first_new re_compiles known learned rest)
      else first_new re_compiles known learned rest)"

text \<open>
  \<open>analyze_for_prompt_pattern\<close>; \<^verbatim>\<open>sorted(..., key=count, reverse=True)\<close> is stable, as
  \<open>sort_key\<close> on the negated count is.
\<close>

definition analyze_for_prompt_pattern ::
  "(pystr \<Rightarrow> bool) \<Rightarrow> bool \<Rightarrow> pystr list \<Rightarrow> pystr set \<Rightarrow> pystr list \<Rightarrow> pystr option" where
  "analyze_for_prompt_pattern re_compiles prompt_learning_enabled known learned lines =
     (if \<not> prompt_learning_enabled then None
      else
        let recent_lines = recent_from [] (rev lines);
            line_endings = count_endings [] recent_lines
        in first_new re_compiles known learned
             (sort_key (\<lambda>item. - snd item) line_endings))"

text \<open>
  \<open>add_prompt_pattern\<close> on the pattern list and the learned set: \<open>Some True\<close> when the
  pattern is new, \<open>None\<close> (Python's \<^verbatim>\<open>None\<close>) when it is known already, \<open>Some False\<close>
  when it does not compile.
\<close>

definition add_prompt_pattern ::
  "(pystr \<Rightarrow> bool) \<Rightarrow> pystr \<Rightarrow> bool \<Rightarrow> pystr list \<times> pystr set
     \<Rightarrow> bool option \<times> pystr list \<times> pystr set" where
  "add_prompt_pattern re_compiles pat is_learned st =
     (let known = fst st; learned = snd st
      in if \<not> re_compiles pat then (Some False, st)
         else if pat \<notin> set known
         then (Some True, known @ [pat], if is_learned then insert pat learned else learned)
         else (None, st))"

text \<open>How many of the lines have the given ending.\<close>

definition tally :: "pystr \<Rightarrow> pystr list \<Rightarrow> nat" where
  "tally ending ls = length (filter (\<lambda>l. ending_of l = ending) ls)"

section \<open>Example inputs\<close>

text \<open>
  The pattern \<^verbatim>\<open>Overwrite.*\?\<close> of the question patterns, the prompt pattern \<^verbatim>\<open>\$ $\<close>,
  and the answers of \<^verbatim>\<open>re.search\<close> on the lines of the examples.
\<close>

definition overwrite_pattern :: pystr where
  "overwrite_pattern = str ''Overwrite.*'' @ bsl @ str ''?''"

definition dollar_pattern :: pystr where
  "dollar_pattern = bsl @ str ''$ $''"

definition example_search :: "pystr \<Rightarrow> bool \<Rightarrow> pystr \<Rightarrow> re_result" where
  "example_search pat ignorecase line =
     (if pat = overwrite_pattern \<and> line = str ''Overwrite existing file? (y/n)'' then Match
      else if pat = dollar_pattern \<and> line = str ''user@host:~$ '' then Match
      else NoMatch)"

text \<open>
  SHA-256's hexadecimal digests of the strings the examples hash, \<^verbatim>\<open>alice@web\<close> and the
  pattern \<^verbatim>\<open>Overwrite.*\?\<close>; for any other string the digest of the empty string
  stands in.
\<close>

definition example_sha256 :: "pystr \<Rightarrow> pystr" where
  "example_sha256 data =
     (if data = str ''alice@web''
      then str ''8d00d535158691fb5e0afab69973aae7254deabc507360a83161f04743dac85a''
      else if data = overwrite_pattern
      then str ''d3397069a1600c8b55ea5c484fe9c69efa7e3928700a225a193c7639b1c4907e''
      else str ''e3b0c44298fc1c149afbf4c8996fb92427ae41e4649b934ca495991b7852b855'')"

text \<open>An environment whose AI calls answer, one whose AI calls raise, and one whose
  summarizer answers and whose next-step generator raises.\<close>

definition example_env :: env where
  "example_env =
     \<lparr>re_search = example_search,
      summarizer = (\<lambda>activity. Inr (str ''listed the files'')),
      next_step_generator = (\<lambda>summary. Inr (str ''cd src'')),
      sha256_hexdigest = example_sha256\<rparr>"

definition failing_env :: env where
  "failing_env =
     \<lparr>re_search = example_search,
      summarizer = (\<lambda>activity. Inl (ApiError (str ''connection refused''))),
      next_step_generator = (\<lambda>summary. Inl (ApiError (str ''connection refused''))),
      sha256_hexdigest = example_sha256\<rparr>"

definition next_step_failing_env :: env where
  "next_step_failing_env =
     \<lparr>re_search = example_search,
      summarizer = (\<lambda>activity. Inr (str ''listed the files'')),
      next_step_generator = (\<lambda>summary. Inl (ApiError (str ''connection refused''))),
      sha256_hexdigest = example_sha256\<rparr>"

definition example_vault :: vault_data where
  "example_vault =
     \<lparr>passwords = None, auto_responses = Some [overwrite_pattern \<mapsto> str ''y'']\<rparr>"

text \<open>The monitor as its constructor leaves it, with the defaults of the command line
  (500 lines, 15 and 120 seconds) and automation enabled.\<close>

definition example_monitor :: monitor where
  "example_monitor =
     \<lparr>max_context_lines = 500, pause_threshold = 15, dead_threshold = 120,
      summarization_provider = str ''openai'', next_step_provider = str ''openai'',
      line_queue = [], summaries = [], last_activity_time = 0,
      prompt_patterns = [dollar_pattern], vault = example_vault,
      automation_enabled = True,
      stats = \<lparr>lines_processed = 0, summaries_created = 0, prompts_detected = 0,
               questions_answered = 0, auto_responses_sent = 0\<rparr>,
      history = []\<rparr>"

definition entry :: "pystr \<Rightarrow> int \<Rightarrow> LineEntry" where
  "entry text n = \<lparr>content = text, timestamp = 0, line_number = n\<rparr>"

definition old_summary :: "pystr \<Rightarrow> Summary" where
  "old_summary text =
     \<lparr>summary_content = text, start_line = 0, end_line = 0, summary_timestamp = 0,
      line_count = 1\<rparr>"

section \<open>Properties of the bounded queue\<close>

lemma deque_append_short: "length q < cap \<Longrightarrow> deque_append cap q x = q @ [x]"
  by (simp add: deque_append_def Let_def)

lemma deque_append_full: "length q = cap \<Longrightarrow> deque_append cap q x = tl (q @ [x])"
  by (simp add: deque_append_def Let_def)

lemma deque_append_length: "length q \<le> cap \<Longrightarrow> length (deque_append cap q x) \<le> cap"
  by (auto simp: deque_append_def Let_def)

lemma foldl_deque_append:
  "length q \<le> cap \<Longrightarrow>
   foldl (deque_append cap) q xs = drop (length q + length xs - cap) (q @ xs)"
proof (induction xs arbitrary: q)
  case Nil
  then show ?case by simp
next
  case (Cons x xs)
  show ?case
  proof (cases "length q < cap")
    case True
    then have len: "length (q @ [x]) \<le> cap" by simp
    show ?thesis
      using Cons.IH [OF len] True by (simp add: deque_append_short)
  next
    case False
    with Cons.prems have full: "length q = cap" by simp
    have len: "length (tl (q @ [x])) \<le> cap" using full by simp
    have tl_eq: "tl (q @ [x]) @ xs = tl (q @ x # xs)" by (cases q) simp_all
    have "foldl (deque_append cap) (tl (q @ [x])) xs = drop (length xs) (tl (q @ x # xs))"
      using Cons.IH [OF len] full by (simp add: tl_eq)
    also have "\<dots> = drop (Suc (length xs)) (q @ x # xs)"
      by (simp only: drop_Suc)
    finally show ?thesis using full by (simp add: deque_append_full)
  qed
qed

lemma process_queue_queue_length:
  "length (line_queue (snd (process_queue e now reason s))) \<le> length (line_queue s)"
  by (auto simp: process_queue_def summarize_activity_def generate_next_step_def
      record_summary_def log_interaction_def Let_def split: sum.splits)

lemma handle_queue_length:
  "length (line_queue (snd (handle_interactive_prompt e now line s))) \<le> length (line_queue s)"
proof -
  have "\<And>s'. line_queue s' = line_queue s \<Longrightarrow>
      length (line_queue (snd (process_queue e now QUESTION_DETECTED s'))) \<le> length (line_queue s)"
    using process_queue_queue_length [of e now QUESTION_DETECTED] by metis
  then show ?thesis
    by (auto simp: handle_interactive_prompt_def Let_def split: result.splits option.splits)
qed

lemma capture_new_lines_bounded:
  "length (line_queue s) \<le> queue_maxlen \<Longrightarrow>
   length (line_queue (snd (capture_new_lines e now n ls s))) \<le> queue_maxlen"
proof (induction ls arbitrary: n s)
  case Nil
  then show ?case by simp
next
  case (Cons line rest)
  define s1 where "s1 = s\<lparr>line_queue := deque_append queue_maxlen (line_queue s)
        \<lparr>content = line, timestamp = now, line_number = n\<rparr>,
      last_activity_time := now,
      history := history s @ [Appended \<lparr>content = line, timestamp = now, line_number = n\<rparr>]\<rparr>"
  have b1: "length (line_queue s1) \<le> queue_maxlen"
    using Cons.prems by (simp add: s1_def deque_append_length)
  have b2: "length (line_queue (snd (handle_interactive_prompt e now line s1))) \<le> queue_maxlen"
    using handle_queue_length [of e now line s1] b1 by simp
  show ?case
    using b1 b2 Cons.IH [of s1 "n + 1"]
      Cons.IH [of "snd (handle_interactive_prompt e now line s1)" "n + 1"]
    by (auto simp: s1_def [symmetric] Let_def split: result.splits option.splits prod.splits)
qed

lemma capture_tick_bounded:
  "length (line_queue (fst st)) \<le> queue_maxlen \<Longrightarrow>
   length (line_queue (fst (capture_tick e now current_content st))) \<le> queue_maxlen"
  using capture_new_lines_bounded [of "fst st" e now "int (length (snd st))"
      "drop (length (snd st)) current_content"]
  by (auto simp: capture_tick_def Let_def split: prod.splits result.splits)

lemma monitor_tick_bounded:
  assumes "length (line_queue s) \<le> queue_maxlen"
  shows "length (line_queue (monitor_tick e now s)) \<le> queue_maxlen"
proof (cases "monitor_decision e (now - last_activity_time s) s")
  case None
  with assms show ?thesis by (simp add: monitor_tick_def)
next
  case (Some reason)
  have "line_queue (log_failure (process_queue e now reason s)) =
        line_queue (snd (process_queue e now reason s))"
    by (cases "process_queue e now reason s") (simp add: log_failure_def split: result.splits)
  with Some process_queue_queue_length [of e now reason s] assms show ?thesis
    by (simp add: monitor_tick_def)
qed

lemma run_bounded:
  "length (line_queue (fst st)) \<le> queue_maxlen \<Longrightarrow>
   length (line_queue (fst (run e evs st))) \<le> queue_maxlen"
proof (induction evs arbitrary: st)
  case Nil
  then show ?case by simp
next
  case (Cons ev evs)
  have "length (line_queue (fst (step e ev st))) \<le> queue_maxlen"
    using Cons.prems by (cases ev) (simp_all add: capture_tick_bounded monitor_tick_bounded)
  from Cons.IH [OF this] show ?case by simp
qed

text \<open>
  Claim C4. The monitor's queue is a deque of capacity \<open>queue_maxlen\<close> = 10000, and no
  run of polls and ticks makes it longer than that. A bounded deque of any capacity,
  however many entries are appended to it, never holds more than its capacity, and it
  holds exactly the most recent entries in their order: after capacity + 1 appends to the
  empty queue the entry appended first is gone and the others remain.
\<close>

theorem queue_ring_buffer:
  "(length (line_queue (fst st)) \<le> queue_maxlen \<longrightarrow>
      length (line_queue (fst (run e evs st))) \<le> queue_maxlen) \<and>
   length (foldl (deque_append cap) [] xs) \<le> cap \<and>
   foldl (deque_append cap) [] xs = drop (length xs - cap) xs \<and>
   (length xs = cap + 1 \<longrightarrow>
      foldl (deque_append cap) [] xs = tl xs \<and>
      (distinct xs \<longrightarrow> hd xs \<notin> set (foldl (deque_append cap) [] xs)))"
proof -
  have eq: "foldl (deque_append cap) [] xs = drop (length xs - cap) xs"
    using foldl_deque_append [of "[]" cap xs] by simp
  have "length (drop (length xs - cap) xs) \<le> cap" by simp
  moreover have "length xs = cap + 1 \<Longrightarrow> drop (length xs - cap) xs = tl xs"
    by (simp add: drop_Suc)
  moreover have "length xs = cap + 1 \<Longrightarrow> distinct xs \<Longrightarrow> hd xs \<notin> set (tl xs)"
    by (cases xs) auto
  ultimately show ?thesis unfolding eq using run_bounded [of st e evs] by auto
qed

theorem queue_ring_buffer_witness:
  "length (line_queue (fst (example_monitor, []))) \<le> queue_maxlen \<and>
   length (line_queue (fst (run example_env [Poll 1 [str ''ls'']] (example_monitor, []))))
     \<le> queue_maxlen \<and>
   length [1, 2, 3 :: nat] = 2 + 1 \<and> distinct [1, 2, 3 :: nat] \<and>
   foldl (deque_append 2) [] [1, 2, 3 :: nat] = [2, 3] \<and>
   hd [1, 2, 3 :: nat] \<notin> set (foldl (deque_append 2) [] [1, 2, 3 :: nat])"
proof -
  have h: "length (line_queue (fst (example_monitor, []))) \<le> queue_maxlen"
    by (simp add: example_monitor_def)
  have l: "length [1, 2, 3 :: nat] = 2 + 1" and d: "distinct [1, 2, 3 :: nat]" by simp_all
  from queue_ring_buffer [of "(example_monitor, [])" example_env "[Poll 1 [str ''ls'']]"
      2 "[1, 2, 3 :: nat]"] h l d
  have "length (line_queue (fst (run example_env [Poll 1 [str ''ls'']] (example_monitor, []))))
          \<le> queue_maxlen \<and>
        foldl (deque_append 2) [] [1, 2, 3 :: nat] = tl [1, 2, 3 :: nat] \<and>
        hd [1, 2, 3 :: nat] \<notin> set (foldl (deque_append 2) [] [1, 2, 3 :: nat])"
    by blast
  with h show ?thesis by simp
qed

section \<open>Properties of the vault\<close>

text \<open>
  Claim C8, as the code has it. On every vault, \<open>get_password\<close> answers with the entry
  of the password section under the first 16 characters of the digest of the context,
  and with nothing when the section is missing; an entry under the context string itself
  is never read. The key has 16 characters whenever the digest has at least that many,
  and what \<open>store_password\<close> stored for a context is found again. On every vault,
  \<open>get_auto_response\<close> answers with the entry of the auto-response section under the
  pattern string itself: what was registered for a pattern is found again, and
  registering it changes the answer for no other pattern.
\<close>

theorem vault_lookup_keys:
  "get_password e v context =
     (case passwords v of
        None \<Rightarrow> None
      | Some m \<Rightarrow> m (take 16 (sha256_hexdigest e context))) \<and>
   (take 16 (sha256_hexdigest e context) \<noteq> context \<longrightarrow>
      get_password e (v\<lparr>passwords := Some (m(context \<mapsto> password))\<rparr>) context =
        m (take 16 (sha256_hexdigest e context))) \<and>
   (16 \<le> length (sha256_hexdigest e context) \<longrightarrow>
      length (take 16 (sha256_hexdigest e context)) = 16) \<and>
   get_password e (store_password e v context password) context = Some password \<and>
   get_auto_response v pat =
     (case auto_responses v of None \<Rightarrow> None | Some r \<Rightarrow> r pat) \<and>
   get_auto_response (add_auto_response v pat response) pat = Some response \<and>
   (pat' \<noteq> pat \<longrightarrow>
      get_auto_response (add_auto_response v pat response) pat' = get_auto_response v pat')"
  by (auto simp: get_password_def store_password_def get_auto_response_def
      add_auto_response_def Let_def split: option.splits)

text \<open>
  The password \<^verbatim>\<open>hunter2\<close> is in the vault under the plaintext context
  \<^verbatim>\<open>alice@web\<close> and is not found; stored by \<open>store_password\<close> it is.
\<close>

theorem vault_lookup_keys_witness:
  "take 16 (sha256_hexdigest example_env (str ''alice@web'')) \<noteq> str ''alice@web'' \<and>
   16 \<le> length (sha256_hexdigest example_env (str ''alice@web'')) \<and>
   str ''Delete.*'' \<noteq> overwrite_pattern \<and>
   get_password example_env
     (example_vault\<lparr>passwords := Some [str ''alice@web'' \<mapsto> str ''hunter2'']\<rparr>)
     (str ''alice@web'') = None \<and>
   get_password example_env
     (store_password example_env example_vault (str ''alice@web'') (str ''hunter2''))
     (str ''alice@web'') = Some (str ''hunter2'') \<and>
   get_auto_response (add_auto_response example_vault overwrite_pattern (str ''n''))
     (str ''Delete.*'') = None \<and>
   get_auto_response (add_auto_response example_vault overwrite_pattern (str ''n''))
     overwrite_pattern = Some (str ''n'')"
proof -
  have h1: "take 16 (sha256_hexdigest example_env (str ''alice@web'')) \<noteq> str ''alice@web''"
    by (simp add: example_env_def example_sha256_def str_def)
  have h2: "16 \<le> length (sha256_hexdigest example_env (str ''alice@web''))"
    by (simp add: example_env_def example_sha256_def str_def)
  have h3: "str ''Delete.*'' \<noteq> overwrite_pattern"
    by (simp add: overwrite_pattern_def str_def)
  have old: "get_auto_response example_vault (str ''Delete.*'') = None"
    using h3 by (simp add: get_auto_response_def example_vault_def)
  have none: "(Map.empty :: pystr \<rightharpoonup> pystr)
      (take 16 (sha256_hexdigest example_env (str ''alice@web''))) = None" by simp
  from vault_lookup_keys [of example_env example_vault "str ''alice@web''" Map.empty
        "str ''hunter2''" overwrite_pattern "str ''n''" "str ''Delete.*''"] h1 h3
  have "get_password example_env
          (example_vault\<lparr>passwords := Some [str ''alice@web'' \<mapsto> str ''hunter2'']\<rparr>)
          (str ''alice@web'') =
          (Map.empty :: pystr \<rightharpoonup> pystr)
            (take 16 (sha256_hexdigest example_env (str ''alice@web''))) \<and>
        get_password example_env
          (store_password example_env example_vault (str ''alice@web'') (str ''hunter2''))
          (str ''alice@web'') = Some (str ''hunter2'') \<and>
        get_auto_response (add_auto_response example_vault overwrite_pattern (str ''n''))
          (str ''Delete.*'') = get_auto_response example_vault (str ''Delete.*'') \<and>
        get_auto_response (add_auto_response example_vault overwrite_pattern (str ''n''))
          overwrite_pattern = Some (str ''n'')"
    by blast
  with h1 h2 h3 old none show ?thesis by simp
qed

text \<open>
  The vault of the example holds one auto-response, under the 13 characters of the
  pattern itself, and \<open>get_auto_response\<close> finds it there; under the 16 characters of
  the digest of the pattern the dictionary holds nothing.
\<close>

theorem auto_response_by_plaintext_counterexample:
  "auto_responses example_vault = Some [overwrite_pattern \<mapsto> str ''y''] \<and>
   get_auto_response example_vault overwrite_pattern = Some (str ''y'') \<and>
   length overwrite_pattern = 13 \<and>
   take 16 (sha256_hexdigest example_env overwrite_pattern) = str ''d3397069a1600c8b'' \<and>
   [overwrite_pattern \<mapsto> str ''y'']
     (take 16 (sha256_hexdigest example_env overwrite_pattern)) = None"
  by (simp add: example_vault_def get_auto_response_def overwrite_pattern_def example_env_def
      example_sha256_def str_def bsl_def)

section \<open>Properties of the idle monitor\<close>

lemma example_strip_simps:
  "strip (str ''ls'') \<noteq> []" "strip (str ''user@host:~$ '') \<noteq> []"
  by (simp_all add: strip_def str_def is_space_def)

text \<open>
  Whenever the dead threshold is not below the pause threshold, the pause branch is
  taken first and the idle monitor never chooses \<open>TIMEOUT\<close>.
\<close>

lemma timeout_is_preempted:
  "pause_threshold s \<le> dead_threshold s \<Longrightarrow> monitor_decision e idle s \<noteq> Some TIMEOUT"
  by (auto simp: monitor_decision_def)

text \<open>
  Claim C1, evaluated on the code. With thresholds 15 and 120, one queued line
  \<^verbatim>\<open>ls\<close> and 125 seconds without activity, the idle monitor flushes with
  \<open>PAUSE_DETECTED\<close>, not with \<open>TIMEOUT\<close>.
\<close>

theorem timeout_not_selected_at_125:
  "monitor_decision example_env 125 (example_monitor\<lparr>line_queue := [entry (str ''ls'') 0]\<rparr>)
     = Some PAUSE_DETECTED"
  by (simp add: monitor_decision_def example_monitor_def entry_def is_at_prompt_def
      example_strip_simps example_env_def example_search_def dollar_pattern_def str_def bsl_def)

lemma matches_any_iff:
  "matches_any e line pats = (\<exists>p \<in> set pats. re_search e p False line = Match)"
  by (induction pats) (auto split: re_result.splits)

lemma at_prompt_from_find:
  "at_prompt_from e pats ls =
     (case find (\<lambda>l. strip l \<noteq> []) ls of
        None \<Rightarrow> False
      | Some l \<Rightarrow> (\<exists>p \<in> set pats. re_search e p False l = Match))"
  by (induction ls) (auto simp: matches_any_iff)

text \<open>
  Claim C2. With thresholds 15 and 120, a queue that is not empty and shorter than
  \<open>max_context_lines\<close>, and 16 seconds without activity, the idle monitor flushes with
  \<open>PROMPT_DETECTED\<close> when the most recent queued line that is not empty (once stripped,
  as the code tests it) matches some prompt pattern, and with \<open>PAUSE_DETECTED\<close>
  otherwise; a tick at that time is that flush.
\<close>

theorem pause_or_prompt_at_16:
  assumes "pause_threshold s = 15" and "dead_threshold s = 120"
    and "line_queue s \<noteq> []" and "int (length (line_queue s)) < max_context_lines s"
  shows "(let reason =
            (case find (\<lambda>l. strip l \<noteq> []) (rev (map content (line_queue s))) of
               None \<Rightarrow> PAUSE_DETECTED
             | Some l \<Rightarrow>
                 if \<exists>p \<in> set (prompt_patterns s). re_search e p False l = Match
                 then PROMPT_DETECTED else PAUSE_DETECTED)
          in monitor_decision e 16 s = Some reason \<and>
             monitor_tick e (last_activity_time s + 16) s =
               log_failure (process_queue e (last_activity_time s + 16) reason s))"
proof -
  have "monitor_decision e 16 s =
     Some (case find (\<lambda>l. strip l \<noteq> []) (rev (map content (line_queue s))) of
             None \<Rightarrow> PAUSE_DETECTED
           | Some l \<Rightarrow>
               if \<exists>p \<in> set (prompt_patterns s). re_search e p False l = Match
               then PROMPT_DETECTED else PAUSE_DETECTED)"
    using assms
    by (simp add: monitor_decision_def is_at_prompt_def at_prompt_from_find
        split: option.splits)
  then show ?thesis by (simp add: monitor_tick_def Let_def)
qed

theorem pause_or_prompt_at_16_witness:
  "pause_threshold (example_monitor\<lparr>line_queue := [entry (str ''user@host:~$ '') 0]\<rparr>) = 15 \<and>
   dead_threshold (example_monitor\<lparr>line_queue := [entry (str ''user@host:~$ '') 0]\<rparr>) = 120 \<and>
   line_queue (example_monitor\<lparr>line_queue := [entry (str ''user@host:~$ '') 0]\<rparr>) \<noteq> [] \<and>
   monitor_decision example_env 16
     (example_monitor\<lparr>line_queue := [entry (str ''user@host:~$ '') 0]\<rparr>) = Some PROMPT_DETECTED"
proof -
  let ?s = "example_monitor\<lparr>line_queue := [entry (str ''user@host:~$ '') 0]\<rparr>"
  have h1: "pause_threshold ?s = 15" and h2: "dead_threshold ?s = 120"
    and h3: "line_queue ?s \<noteq> []" and h4: "int (length (line_queue ?s)) < max_context_lines ?s"
    by (simp_all add: example_monitor_def)
  have m: "re_search example_env dollar_pattern False (str ''user@host:~$ '') = Match"
    by (simp add: example_env_def example_search_def dollar_pattern_def overwrite_pattern_def
        str_def bsl_def)
  have f: "find (\<lambda>l. strip l \<noteq> []) (rev (map content (line_queue ?s))) =
             Some (str ''user@host:~$ '')"
    by (simp add: entry_def example_strip_simps)
  have p: "prompt_patterns ?s = [dollar_pattern]" by (simp add: example_monitor_def)
  note at_16 = pause_or_prompt_at_16 [OF h1 h2 h3 h4, of example_env, unfolded Let_def f p]
  from at_16 m have "monitor_decision example_env 16 ?s = Some PROMPT_DETECTED" by simp
  with h1 h2 h3 show ?thesis by simp
qed

section \<open>Properties of the queue processor\<close>

text \<open>
  Claim C10. Called on an empty queue, for whatever reason, \<open>process_queue\<close> returns
  at once: no exception, and the monitor is as it was, with its queue, its summaries, its
  counters and the record of its calls to the summarizer and the next-step generator.
\<close>

theorem process_queue_empty_is_noop:
  "line_queue s = [] \<Longrightarrow> process_queue e now reason s = (Returned (), s)"
  by (simp add: process_queue_def)

theorem process_queue_empty_is_noop_witness:
  "line_queue example_monitor = [] \<and>
   process_queue failing_env 20 TIMEOUT example_monitor = (Returned (), example_monitor)"
proof -
  have h: "line_queue example_monitor = []" by (simp add: example_monitor_def)
  show ?thesis using h process_queue_empty_is_noop [OF h] by simp
qed

lemma slice_from_last_n:
  "0 < n \<Longrightarrow> slice_from (- n) xs = drop (length xs - nat n) xs"
  by (auto simp: slice_from_def nat_diff_distrib')

lemma process_queue_sends_context:
  assumes "line_queue s \<noteq> []" and "summarization_provider s = str ''openai''"
  shows "\<exists>rest. history (snd (process_queue e now reason s)) =
           history s @ SummarizerCall (build_context reason s (line_queue s)) # rest"
  using assms
  by (auto simp: process_queue_def summarize_activity_def generate_next_step_def
      record_summary_def log_interaction_def Let_def split: sum.splits)

text \<open>
  Claim C5, as the code has it. A flush of a queue that is not empty calls the summarizer
  with one context. When the reason is \<open>CONTEXT_LIMIT\<close> and there is at least one earlier
  summary, the context is the rolling one: the summary before the last if there are two,
  then the last summary, then the text of the most recent \<open>max_context_lines\<close> queued
  lines, each part under its label and the parts a blank line apart. For every other
  reason, and when there is no earlier summary, it is the text of all the queued lines.
\<close>

theorem context_of_flush:
  fixes s :: monitor
  defines "recent \<equiv>
     join [10] (map content
       (drop (length (line_queue s) - nat (max_context_lines s)) (line_queue s)))"
  assumes "line_queue s \<noteq> []" and "summarization_provider s = str ''openai''"
    and "0 < max_context_lines s"
  shows "(\<exists>rest. history (snd (process_queue e now reason s)) =
            history s @ SummarizerCall (build_context reason s (line_queue s)) # rest) \<and>
         (reason = CONTEXT_LIMIT \<and> summaries s = older @ [previous, latest] \<longrightarrow>
            build_context reason s (line_queue s) =
              str ''[Previous Summary]: '' @ summary_content previous @ [10, 10] @
              str ''[Last Summary]: '' @ summary_content latest @ [10, 10] @
              str ''[Recent Activity]:'' @ [10] @ recent) \<and>
         (reason = CONTEXT_LIMIT \<and> summaries s = [latest] \<longrightarrow>
            build_context reason s (line_queue s) =
              str ''[Last Summary]: '' @ summary_content latest @ [10, 10] @
              str ''[Recent Activity]:'' @ [10] @ recent) \<and>
         (reason \<noteq> CONTEXT_LIMIT \<or> summaries s = [] \<longrightarrow>
            build_context reason s (line_queue s) = join [10] (map content (line_queue s)))"
proof -
  have r: "join [10] (map content (slice_from (- max_context_lines s) (line_queue s))) = recent"
    using assms(4) by (simp add: recent_def slice_from_last_n)
  have two: "summaries s = older @ [previous, latest] \<Longrightarrow>
      summaries s ! (length (summaries s) - 2) = previous \<and> last (summaries s) = latest \<and>
      2 \<le> length (summaries s) \<and> summaries s \<noteq> []"
    by (simp add: nth_append)
  have cases: "(reason = CONTEXT_LIMIT \<and> summaries s = older @ [previous, latest] \<longrightarrow>
            build_context reason s (line_queue s) =
              str ''[Previous Summary]: '' @ summary_content previous @ [10, 10] @
              str ''[Last Summary]: '' @ summary_content latest @ [10, 10] @
              str ''[Recent Activity]:'' @ [10] @ recent) \<and>
         (reason = CONTEXT_LIMIT \<and> summaries s = [latest] \<longrightarrow>
            build_context reason s (line_queue s) =
              str ''[Last Summary]: '' @ summary_content latest @ [10, 10] @
              str ''[Recent Activity]:'' @ [10] @ recent) \<and>
         (reason \<noteq> CONTEXT_LIMIT \<or> summaries s = [] \<longrightarrow>
            build_context reason s (line_queue s) = join [10] (map content (line_queue s)))"
    using r two
    by (auto simp: build_context_def build_rolling_context_def full_context_def Let_def)
  from process_queue_sends_context [OF assms(2) assms(3)] cases show ?thesis by blast
qed

theorem context_of_flush_witness:
  "line_queue (example_monitor\<lparr>line_queue := [entry (str ''ls'') 0, entry (str ''pwd'') 1],
      summaries := [old_summary (str ''a''), old_summary (str ''b'')],
      max_context_lines := 1\<rparr>) \<noteq> [] \<and>
   build_context CONTEXT_LIMIT
     (example_monitor\<lparr>line_queue := [entry (str ''ls'') 0, entry (str ''pwd'') 1],
        summaries := [old_summary (str ''a''), old_summary (str ''b'')],
        max_context_lines := 1\<rparr>)
     [entry (str ''ls'') 0, entry (str ''pwd'') 1] =
     str ''[Previous Summary]: a'' @ [10, 10] @ str ''[Last Summary]: b'' @ [10, 10] @
     str ''[Recent Activity]:'' @ [10] @ str ''pwd''"
proof -
  let ?s = "example_monitor\<lparr>line_queue := [entry (str ''ls'') 0, entry (str ''pwd'') 1],
      summaries := [old_summary (str ''a''), old_summary (str ''b'')],
      max_context_lines := 1\<rparr>"
  have h1: "line_queue ?s \<noteq> []" and h2: "summarization_provider ?s = str ''openai''"
    and h3: "0 < max_context_lines ?s"
    by (simp_all add: example_monitor_def)
  have h4: "CONTEXT_LIMIT = CONTEXT_LIMIT \<and>
      summaries ?s = [] @ [old_summary (str ''a''), old_summary (str ''b'')]" by simp
  from context_of_flush [OF h1 h2 h3, of example_env 0 CONTEXT_LIMIT "[]"
      "old_summary (str ''a'')" "old_summary (str ''b'')"] h4
  have "build_context CONTEXT_LIMIT ?s (line_queue ?s) =
      str ''[Previous Summary]: '' @ summary_content (old_summary (str ''a'')) @ [10, 10] @
      str ''[Last Summary]: '' @ summary_content (old_summary (str ''b'')) @ [10, 10] @
      str ''[Recent Activity]:'' @ [10] @
      join [10] (map content
        (drop (length (line_queue ?s) - nat (max_context_lines ?s)) (line_queue ?s)))"
    by blast
  then show ?thesis
    by (simp add: old_summary_def entry_def str_def)
qed

text \<open>
  With one earlier summary and the reason \<open>CONTEXT_LIMIT\<close> the summarizer is given the
  rolling context, the last summary and the recent lines, not the text of the queue alone.
\<close>

theorem rolling_context_with_one_summary_counterexample:
  "history (snd (process_queue example_env 5 CONTEXT_LIMIT
      (example_monitor\<lparr>line_queue := [entry (str ''ls'') 0],
         summaries := [old_summary (str ''built the project'')]\<rparr>))) =
     [SummarizerCall
        (str ''[Last Summary]: built the project'' @ [10, 10] @
         str ''[Recent Activity]:'' @ [10] @ str ''ls''),
      Cleared] \<and>
   full_context [entry (str ''ls'') 0] = str ''ls''"
  by (simp add: process_queue_def summarize_activity_def build_context_def
      build_rolling_context_def full_context_def record_summary_def slice_from_def
      example_monitor_def example_env_def entry_def old_summary_def Let_def str_def)

text \<open>
  When the summarizer raises, \<open>process_queue\<close> raises: no summary is recorded and the
  queue is left as it was.
\<close>

lemma summarizer_failure_propagates:
  assumes "line_queue s \<noteq> []" and "summarization_provider s = str ''openai''"
    and "summarizer e (build_context reason s (line_queue s)) = Inl ex"
  shows "process_queue e now reason s =
           (Raised ex,
            s\<lparr>history := history s @ [SummarizerCall (build_context reason s (line_queue s))]\<rparr>)"
  using assms by (simp add: process_queue_def summarize_activity_def Let_def)

text \<open>
  Claim C6, evaluated on the code. One line is queued and 20 seconds have passed. When
  the summarizer raises, the tick of the idle monitor logs the exception and goes on,
  but it records no summary, so no error text reaches a summary, and it leaves the line
  in the queue. When the summarizer answers and the next-step generator raises, the tick
  logs the exception as well; the summary it has recorded holds the summarizer's answer
  and no error text.
\<close>

theorem ai_failure_not_embedded_in_summary:
  "monitor_tick failing_env 20 (example_monitor\<lparr>line_queue := [entry (str ''ls'') 0]\<rparr>) =
     example_monitor
       \<lparr>line_queue := [entry (str ''ls'') 0],
        history := [SummarizerCall (str ''ls''),
                    LoggedError (ApiError (str ''connection refused''))]\<rparr> \<and>
   monitor_tick next_step_failing_env 20
      (example_monitor\<lparr>line_queue := [entry (str ''user@host:~$ '') 0]\<rparr>) =
     example_monitor
       \<lparr>line_queue := [],
        summaries := [\<lparr>summary_content = str ''listed the files'', start_line = 0,
                       end_line = 0, summary_timestamp = 20, line_count = 1\<rparr>],
        stats := \<lparr>lines_processed = 0, summaries_created = 1, prompts_detected = 0,
                   questions_answered = 0, auto_responses_sent = 0\<rparr>,
        history := [SummarizerCall (str ''user@host:~$ ''), Cleared,
                    NextStepCall (str ''listed the files''),
                    LoggedError (ApiError (str ''connection refused''))]\<rparr>"
  by (simp add: monitor_tick_def monitor_decision_def example_monitor_def entry_def
      is_at_prompt_def example_strip_simps failing_env_def next_step_failing_env_def
      example_search_def dollar_pattern_def overwrite_pattern_def
      process_queue_def summarize_activity_def generate_next_step_def build_context_def
      full_context_def record_summary_def log_failure_def bsl_def Let_def)

section \<open>Properties of the interactive prompts\<close>






section \<open>Properties of the line numbers\<close>

lemma appended_append: "appended (h1 @ h2) = appended h1 @ appended h2"
  by (induction h1 rule: appended.induct) simp_all

lemma process_queue_appended:
  "appended (history (snd (process_queue e now reason s))) = appended (history s)"
  by (auto simp: process_queue_def summarize_activity_def generate_next_step_def
      record_summary_def log_interaction_def Let_def appended_append
      split: sum.splits result.splits prod.splits)

lemma handle_appended:
  "appended (history (snd (handle_interactive_prompt e now line s))) = appended (history s)"
  by (auto simp: handle_interactive_prompt_def Let_def appended_append process_queue_appended
      split: result.splits option.splits)

text \<open>
  When the loop over the new lines ends without an exception, it has appended one entry
  for each of them, numbered from \<open>n\<close> upwards.
\<close>

lemma capture_new_lines_numbers:
  "fst (capture_new_lines e now n ls s) = Returned () \<Longrightarrow>
   map line_number (appended (history (snd (capture_new_lines e now n ls s)))) =
     map line_number (appended (history s)) @ map (\<lambda>i. n + int i) [0..<length ls]"
proof (induction ls arbitrary: n s)
  case Nil
  then show ?case by simp
next
  case (Cons line rest)
  define s1 where "s1 = s\<lparr>line_queue := deque_append queue_maxlen (line_queue s)
        \<lparr>content = line, timestamp = now, line_number = n\<rparr>,
      last_activity_time := now,
      history := history s @ [Appended \<lparr>content = line, timestamp = now, line_number = n\<rparr>]\<rparr>"
  have n1: "map line_number (appended (history s1)) = map line_number (appended (history s)) @ [n]"
    by (simp add: s1_def appended_append)
  have shift: "map (\<lambda>i. n + int i) [0..<length (line # rest)] =
               n # map (\<lambda>i. (n + 1) + int i) [0..<length rest]"
    by (simp add: upt_rec [of 0] map_Suc_upt [symmetric] del: upt_Suc)
  show ?case
  proof (cases "detect_interactive_prompt e now line")
    case (Raised ex)
    with Cons.prems show ?thesis by (simp add: Let_def)
  next
    case (Returned r)
    show ?thesis
    proof (cases r)
      case None
      with Returned
      have eq: "capture_new_lines e now n (line # rest) s =
                capture_new_lines e now (n + 1) rest s1"
        by (simp add: s1_def Let_def)
      with Cons.prems have "fst (capture_new_lines e now (n + 1) rest s1) = Returned ()"
        by simp
      from Cons.IH [OF this] eq n1 shift show ?thesis by simp
    next
      case (Some prompt)
      obtain res s2 where h: "handle_interactive_prompt e now line s1 = (res, s2)"
        by (cases "handle_interactive_prompt e now line s1")
      have n2: "map line_number (appended (history s2)) = map line_number (appended (history s1))"
        using handle_appended [of e now line s1] h by simp
      show ?thesis
      proof (cases res)
        case (Raised ex)
        with Returned Some h Cons.prems show ?thesis by (simp add: s1_def Let_def)
      next
        case ret: (Returned u)
        with Returned Some h
        have eq: "capture_new_lines e now n (line # rest) s =
                  capture_new_lines e now (n + 1) rest s2"
          by (simp add: s1_def Let_def)
        with Cons.prems have "fst (capture_new_lines e now (n + 1) rest s2) = Returned ()"
          by simp
        from Cons.IH [OF this] eq n1 n2 shift show ?thesis by simp
      qed
    qed
  qed
qed

lemma capture_tick_numbered:
  assumes "poll_completes e now current_content st" and "numbered_below st"
    and "length (snd st) \<le> length current_content"
  shows "numbered_below (capture_tick e now current_content st) \<and>
         snd (capture_tick e now current_content st) = current_content"
proof (cases "length (snd st) < length current_content")
  case False
  with assms(3) have "length (snd st) = length current_content" by simp
  with False assms(2) show ?thesis
    by (simp add: capture_tick_def Let_def numbered_below_def)
next
  case True
  let ?new = "drop (length (snd st)) current_content"
  let ?r = "capture_new_lines e now (int (length (snd st))) ?new (fst st)"
  have ret: "fst ?r = Returned ()"
    using assms(1) True by (simp add: poll_completes_def)
  from capture_new_lines_numbers [OF ret]
  have nums: "appended_numbers (snd ?r) =
      appended_numbers (fst st) @ map (\<lambda>i. int (length (snd st)) + int i) [0..<length ?new]"
    by (simp add: appended_numbers_def)
  have tick: "capture_tick e now current_content st = (snd ?r, current_content)"
    using True ret by (cases ?r) (simp add: capture_tick_def Let_def)
  have fresh: "sorted_wrt (<) (map (\<lambda>i. int (length (snd st)) + int i) [0..<length ?new])"
    by (simp add: sorted_wrt_map sorted_wrt_upt del: upt_Suc)
  have "sorted_wrt (<) (appended_numbers (snd ?r))"
    unfolding nums using assms(2) fresh
    by (auto simp: numbered_below_def sorted_wrt_append list_all_iff)
  moreover have "list_all (\<lambda>k. k < int (length current_content)) (appended_numbers (snd ?r))"
    unfolding nums using assms(2) True
    by (auto simp: numbered_below_def list_all_iff)
  ultimately show ?thesis
    by (simp add: tick numbered_below_def)
qed

lemma monitor_tick_numbers: "appended_numbers (monitor_tick e now s) = appended_numbers s"
proof (cases "monitor_decision e (now - last_activity_time s) s")
  case None
  then show ?thesis by (simp add: monitor_tick_def)
next
  case (Some reason)
  have "appended (history (log_failure (process_queue e now reason s))) = appended (history s)"
    using process_queue_appended [of e now reason s]
    by (cases "process_queue e now reason s")
       (auto simp: log_failure_def appended_append split: result.splits)
  with Some show ?thesis by (simp add: monitor_tick_def appended_numbers_def)
qed

lemma run_numbered:
  "numbered_below st \<Longrightarrow> never_shrinks (length (snd st)) evs \<Longrightarrow>
   no_poll_cut_short e evs st \<Longrightarrow> numbered_below (run e evs st)"
proof (induction evs arbitrary: st)
  case Nil
  then show ?case by simp
next
  case (Cons ev evs)
  show ?case
  proof (cases ev)
    case (Poll now current_content)
    with Cons.prems have le: "length (snd st) \<le> length current_content"
      and rest: "never_shrinks (length current_content) evs"
      and whole: "poll_completes e now current_content st"
      and later: "no_poll_cut_short e evs (step e ev st)" by simp_all
    from capture_tick_numbered [OF whole Cons.prems(1) le]
    have "numbered_below (step e ev st)" and "snd (step e ev st) = current_content"
      using Poll by simp_all
    with Cons.IH [of "step e ev st"] rest later show ?thesis by simp
  next
    case (Tick now)
    with Cons.prems have "numbered_below (step e ev st)"
      by (simp add: numbered_below_def monitor_tick_numbers)
    moreover have "snd (step e ev st) = snd st" using Tick by simp
    moreover have "no_poll_cut_short e evs (step e ev st)" using Cons.prems(3) Tick by simp
    ultimately show ?thesis using Cons.IH [of "step e ev st"] Cons.prems(2) Tick by simp
  qed
qed

text \<open>
  Claim C3, as the code has it. The line number of an entry is its position in the pane
  content, not a counter. Take any run of polls and ticks from the initial state in which
  no poll reads a pane content shorter than the one before and no poll is cut short by
  an exception. Then the line numbers of the appended entries rise strictly in the order
  of appending, whatever flushes clear the queue in between and whatever those flushes
  raise.
\<close>

theorem line_numbers_increase_while_pane_grows:
  assumes "no_poll_cut_short e evs (s, [])" and "never_shrinks 0 evs" and "history s = []"
  shows "sorted_wrt (<) (appended_numbers (fst (run e evs (s, []))))"
proof -
  have "numbered_below (s, [])" using assms(3)
    by (simp add: numbered_below_def appended_numbers_def)
  from run_numbered [OF this, of evs e] assms(1) assms(2)
  show ?thesis by (simp add: numbered_below_def)
qed

lemmas eval_simps =
  capture_tick_def Let_def deque_append_def queue_maxlen_def appended_numbers_def
  example_monitor_def str_def detect_interactive_prompt_def question_patterns_def
  example_env_def failing_env_def example_search_def dollar_pattern_def
  overwrite_pattern_def bsl_def
  monitor_tick_def monitor_decision_def is_at_prompt_def process_queue_def
  summarize_activity_def build_context_def full_context_def log_failure_def
  record_summary_def strip_def is_space_def

text \<open>
  Two lines are captured, a pause flushes and clears the queue, and a third line is
  captured: it gets the number 2. So it does when the summarizer raises in the flush and
  the two lines stay queued.
\<close>

lemma example_run_numbers:
  "appended_numbers (fst (run example_env
      [Poll 1 [str ''ls'', str ''a.txt''], Tick 20,
       Poll 21 [str ''ls'', str ''a.txt'', str ''pwd'']]
      (example_monitor, []))) = [0, 1, 2] \<and>
   map line_number (line_queue (fst (run example_env
      [Poll 1 [str ''ls'', str ''a.txt''], Tick 20,
       Poll 21 [str ''ls'', str ''a.txt'', str ''pwd'']]
      (example_monitor, [])))) = [2]"
  by (simp add: eval_simps)

lemma failing_run_numbers:
  "no_poll_cut_short failing_env
      [Poll 1 [str ''ls'', str ''a.txt''], Tick 20,
       Poll 21 [str ''ls'', str ''a.txt'', str ''pwd'']]
      (example_monitor, []) \<and>
   appended_numbers (fst (run failing_env
      [Poll 1 [str ''ls'', str ''a.txt''], Tick 20,
       Poll 21 [str ''ls'', str ''a.txt'', str ''pwd'']]
      (example_monitor, []))) = [0, 1, 2] \<and>
   map line_number (line_queue (fst (run failing_env
      [Poll 1 [str ''ls'', str ''a.txt''], Tick 20,
       Poll 21 [str ''ls'', str ''a.txt'', str ''pwd'']]
      (example_monitor, [])))) = [0, 1, 2]"
  by (simp add: eval_simps poll_completes_def)

theorem line_numbers_increase_witness:
  "no_poll_cut_short failing_env
      [Poll 1 [str ''ls'', str ''a.txt''], Tick 20,
       Poll 21 [str ''ls'', str ''a.txt'', str ''pwd'']]
      (example_monitor, []) \<and>
   never_shrinks 0 [Poll 1 [str ''ls'', str ''a.txt''], Tick 20,
       Poll 21 [str ''ls'', str ''a.txt'', str ''pwd'']] \<and>
   history example_monitor = [] \<and>
   sorted_wrt (<) (appended_numbers (fst (run failing_env
      [Poll 1 [str ''ls'', str ''a.txt''], Tick 20,
       Poll 21 [str ''ls'', str ''a.txt'', str ''pwd'']]
      (example_monitor, [])))) \<and>
   appended_numbers (fst (run failing_env
      [Poll 1 [str ''ls'', str ''a.txt''], Tick 20,
       Poll 21 [str ''ls'', str ''a.txt'', str ''pwd'']]
      (example_monitor, []))) = [0, 1, 2]"
proof -
  let ?evs = "[Poll 1 [str ''ls'', str ''a.txt''], Tick 20,
       Poll 21 [str ''ls'', str ''a.txt'', str ''pwd'']]"
  have h1: "no_poll_cut_short failing_env ?evs (example_monitor, [])"
    using failing_run_numbers by blast
  have h2: "never_shrinks 0 ?evs" by simp
  have h3: "history example_monitor = []" by (simp add: example_monitor_def)
  from h1 h2 h3 failing_run_numbers
    line_numbers_increase_while_pane_grows [OF h1 h2 h3]
  show ?thesis by blast
qed

text \<open>
  The pane holds three lines, is cleared down to one, and grows to two: the line that
  comes last is appended with the number 1, after the numbers 0, 1 and 2.
\<close>

theorem line_numbers_restart_counterexample:
  "appended_numbers (fst (run example_env
      [Poll 1 [str ''ls'', str ''a.txt'', str ''b.txt''], Poll 2 [str ''ls''],
       Poll 3 [str ''ls'', str ''pwd'']]
      (example_monitor, []))) = [0, 1, 2, 1]"
  by (simp add: eval_simps)

section \<open>Properties of the pattern learning\<close>

lemma recent_from_take:
  "length acc < 10 \<Longrightarrow>
   recent_from acc ls = take 10 (acc @ filter (\<lambda>l. strip l \<noteq> []) ls)"
proof (induction ls arbitrary: acc)
  case Nil
  then show ?case by simp
next
  case (Cons line older)
  show ?case
  proof (cases "strip line \<noteq> [] \<and> \<not> 10 \<le> length (acc @ [line])")
    case True
    then have "length (acc @ [line]) < 10" by simp
    from Cons.IH [OF this] True show ?thesis by simp
  next
    case False
    show ?thesis
    proof (cases "strip line = []")
      case True
      with Cons.IH [OF Cons.prems] show ?thesis by simp
    next
      case nonblank: False
      with False Cons.prems have "length acc = 9" by simp
      with nonblank show ?thesis by simp
    qed
  qed
qed

lemma keys_bump:
  "map fst (bump k d) = (if k \<in> fst ` set d then map fst d else map fst d @ [k])"
  by (induction d) (auto split: if_splits)

lemma distinct_bump: "distinct (map fst d) \<Longrightarrow> distinct (map fst (bump k d))"
  by (simp add: keys_bump)

lemma map_of_bump:
  "map_of (bump k d) k' =
     (if k' = k then Some (case map_of d k of None \<Rightarrow> 1 | Some c \<Rightarrow> c + 1) else map_of d k')"
  by (induction d) (auto split: option.splits)

lemma distinct_count_endings:
  "distinct (map fst d) \<Longrightarrow> distinct (map fst (count_endings d ls))"
  by (induction ls arbitrary: d) (simp_all add: distinct_bump)

lemma map_of_count_endings:
  "map_of (count_endings d ls) k =
     (if is_candidate k \<and> 0 < tally k ls
      then Some ((case map_of d k of None \<Rightarrow> 0 | Some c \<Rightarrow> c) + int (tally k ls))
      else map_of d k)"
proof (induction ls arbitrary: d)
  case Nil
  then show ?case by (simp add: tally_def)
next
  case (Cons line rest)
  show ?case
  proof (cases "is_candidate (ending_of line)")
    case False
    then show ?thesis using Cons.IH [of d] by (auto simp: tally_def)
  next
    case True
    show ?thesis
      using True Cons.IH [of "bump (ending_of line) d"]
      by (auto simp: tally_def map_of_bump split: option.splits)
  qed
qed

lemma count_endings_member:
  "(k, c) \<in> set (count_endings [] ls) \<longleftrightarrow>
     is_candidate k \<and> 0 < tally k ls \<and> c = int (tally k ls)"
proof -
  have "(k, c) \<in> set (count_endings [] ls) \<longleftrightarrow> map_of (count_endings [] ls) k = Some c"
    using distinct_count_endings [of "[]" ls] by simp
  then show ?thesis by (auto simp: map_of_count_endings)
qed

lemma first_new_sound:
  "first_new ok known learned xs = Some p \<Longrightarrow>
   \<exists>k c. (k, c) \<in> set xs \<and> 3 \<le> c \<and> p = pattern_of k \<and> p \<notin> set known \<and> p \<notin> learned \<and> ok p"
proof (induction xs)
  case Nil
  then show ?case by simp
next
  case (Cons a xs)
  obtain k c where a: "a = (k, c)" by (cases a)
  show ?case
  proof (cases "first_new ok known learned xs = Some p")
    case True
    from Cons.IH [OF this] show ?thesis by auto
  next
    case False
    with Cons.prems a have "3 \<le> c \<and> p = pattern_of k \<and> p \<notin> set known \<and> p \<notin> learned \<and> ok p"
      by (auto split: if_splits)
    with a show ?thesis by auto
  qed
qed

lemma first_new_complete:
  "(k, c) \<in> set xs \<Longrightarrow> 3 \<le> c \<Longrightarrow> pattern_of k \<notin> set known \<Longrightarrow>
   pattern_of k \<notin> learned \<Longrightarrow> ok (pattern_of k) \<Longrightarrow>
   first_new ok known learned xs \<noteq> None"
  by (induction xs) (auto split: if_splits)

text \<open>
  Claim C9, as the code has it. The heuristic looks at the last ten lines that are not
  blank. The ending of a line is its last 20 characters with the white space stripped
  at both ends; an ending counts when it has 1 to 14 characters, one of them a prompt
  character. A pattern the heuristic proposes is such an ending that at least three of
  those lines have, escaped and followed by \<^verbatim>\<open>\s*$\<close>, and it is neither a known nor a
  learned pattern. Whenever some such ending exists, with a pattern that compiles, the
  heuristic proposes a pattern. With learning disabled it proposes none.
\<close>

theorem learned_pattern_characterised:
  fixes lines :: "pystr list"
  defines "recent \<equiv> take 10 (filter (\<lambda>l. strip l \<noteq> []) (rev lines))"
  shows "(analyze_for_prompt_pattern ok True known learned lines = Some p \<longrightarrow>
            (\<exists>ending. p = re_escape ending @ bsl @ str ''s*$'' \<and>
               0 < length ending \<and> length ending < 15 \<and>
               (\<exists>ch \<in> set prompt_indicators. ch \<in> set ending) \<and>
               3 \<le> tally ending recent \<and> p \<notin> set known \<and> p \<notin> learned \<and> ok p)) \<and>
         ((\<exists>ending. is_candidate ending \<and> 3 \<le> tally ending recent \<and>
               pattern_of ending \<notin> set known \<and> pattern_of ending \<notin> learned \<and>
               ok (pattern_of ending)) \<longrightarrow>
            analyze_for_prompt_pattern ok True known learned lines \<noteq> None) \<and>
         analyze_for_prompt_pattern ok False known learned lines = None"
proof -
  let ?sorted = "sort_key (\<lambda>item. - snd item) (count_endings [] recent)"
  have rec: "recent_from [] (rev lines) = recent"
    by (simp add: recent_def recent_from_take)
  have an: "analyze_for_prompt_pattern ok True known learned lines =
              first_new ok known learned ?sorted"
    by (simp add: analyze_for_prompt_pattern_def rec)
  have mem: "\<And>k c. (k, c) \<in> set ?sorted \<longleftrightarrow>
               is_candidate k \<and> 0 < tally k recent \<and> c = int (tally k recent)"
    by (simp add: count_endings_member)
  have sound: "\<exists>ending. p = re_escape ending @ bsl @ str ''s*$'' \<and>
               0 < length ending \<and> length ending < 15 \<and>
               (\<exists>ch \<in> set prompt_indicators. ch \<in> set ending) \<and>
               3 \<le> tally ending recent \<and> p \<notin> set known \<and> p \<notin> learned \<and> ok p"
    if "analyze_for_prompt_pattern ok True known learned lines = Some p"
  proof -
    from that an have "first_new ok known learned ?sorted = Some p" by simp
    from first_new_sound [OF this] obtain k c where
      kc: "(k, c) \<in> set ?sorted" "3 \<le> c" "p = pattern_of k" "p \<notin> set known" "p \<notin> learned" "ok p"
      by blast
    from kc(1) mem have "is_candidate k" "c = int (tally k recent)" by simp_all
    with kc show ?thesis
      by (auto simp: is_candidate_def pattern_of_def list_ex_iff intro!: exI [of _ k])
  qed
  have complete: "analyze_for_prompt_pattern ok True known learned lines \<noteq> None"
    if "\<exists>ending. is_candidate ending \<and> 3 \<le> tally ending recent \<and>
               pattern_of ending \<notin> set known \<and> pattern_of ending \<notin> learned \<and>
               ok (pattern_of ending)"
  proof -
    from that obtain k where k: "is_candidate k" "3 \<le> tally k recent"
      "pattern_of k \<notin> set known" "pattern_of k \<notin> learned" "ok (pattern_of k)" by blast
    then have in_sorted: "(k, int (tally k recent)) \<in> set ?sorted" using mem by simp
    have "3 \<le> int (tally k recent)" using k(2) by simp
    from first_new_complete [OF in_sorted this k(3) k(4), of ok] k(5) an show ?thesis by simp
  qed
  have "analyze_for_prompt_pattern ok False known learned lines = None"
    by (simp add: analyze_for_prompt_pattern_def)
  with sound complete show ?thesis by blast
qed

lemmas learn_simps =
  analyze_for_prompt_pattern_def str_def strip_def is_space_def Let_def
  ending_of_def slice_from_def is_candidate_def prompt_indicators_def pattern_of_def
  re_escape_def re_special_def bsl_def dollar_pattern_def

text \<open>
  Three lines \<^verbatim>\<open>] $ \<close> give the pattern of the stripped ending \<^verbatim>\<open>] $\<close> followed by
  \<^verbatim>\<open>\s*$\<close>, which is not the escaped trailing string anchored at the end of the line.
  Three lines \<^verbatim>\<open>user@myhost:~/a$\<close>, whose last 15 characters hold a \<^verbatim>\<open>$\<close>, give no
  pattern at all: the stripped ending has 16 characters.
\<close>

theorem learned_pattern_counterexample:
  "analyze_for_prompt_pattern (\<lambda>p. True) True [dollar_pattern] {}
      [str ''] $ '', str ''] $ '', str ''] $ ''] =
     Some (bsl @ str '']'' @ bsl @ str '' '' @ bsl @ str ''$'' @ bsl @ str ''s*$'') \<and>
   bsl @ str '']'' @ bsl @ str '' '' @ bsl @ str ''$'' @ bsl @ str ''s*$'' \<noteq>
     re_escape (str ''] $ '') @ str ''$'' \<and>
   analyze_for_prompt_pattern (\<lambda>p. True) True [dollar_pattern] {}
      [str ''user@myhost:~/a$'', str ''user@myhost:~/a$'', str ''user@myhost:~/a$''] = None \<and>
   36 \<in> set (slice_from (- 15) (str ''user@myhost:~/a$''))"
  by (simp add: learn_simps)

theorem learned_pattern_witness:
  "analyze_for_prompt_pattern (\<lambda>p. True) True [dollar_pattern] {}
      [str ''] $ '', str ''] $ '', str ''] $ ''] =
     Some (bsl @ str '']'' @ bsl @ str '' '' @ bsl @ str ''$'' @ bsl @ str ''s*$'') \<and>
   (\<exists>ending. bsl @ str '']'' @ bsl @ str '' '' @ bsl @ str ''$'' @ bsl @ str ''s*$'' =
        re_escape ending @ bsl @ str ''s*$'' \<and>
      0 < length ending \<and> length ending < 15 \<and>
      (\<exists>ch \<in> set prompt_indicators. ch \<in> set ending) \<and>
      3 \<le> tally ending
             (take 10 (filter (\<lambda>l. strip l \<noteq> [])
                (rev [str ''] $ '', str ''] $ '', str ''] $ ''])))) \<and>
   is_candidate (str ''] $'') \<and>
   ending_of (str ''] $ '') = str ''] $''"
proof -
  have h: "analyze_for_prompt_pattern (\<lambda>p. True) True [dollar_pattern] {}
      [str ''] $ '', str ''] $ '', str ''] $ ''] =
     Some (bsl @ str '']'' @ bsl @ str '' '' @ bsl @ str ''$'' @ bsl @ str ''s*$'')"
    by (simp add: learn_simps)
  have c: "is_candidate (str ''] $'') \<and> ending_of (str ''] $ '') = str ''] $''"
    by (simp add: learn_simps)
  from learned_pattern_characterised [of "\<lambda>p. True" "[dollar_pattern]" "{}"
      "[str ''] $ '', str ''] $ '', str ''] $ '']"
      "bsl @ str '']'' @ bsl @ str '' '' @ bsl @ str ''$'' @ bsl @ str ''s*$''"] h c
  show ?thesis by blast
qed

end
